theory Spec2Isabelle
  imports Main "HOL-Library.Word"
begin

unbundle bit_operations_syntax

section \<open>Bytes, strings and errors\<close>

text \<open>
  A Go \<^verbatim>\<open>byte\<close> is an 8-bit word. A Go \<^verbatim>\<open>string\<close> is a sequence of bytes, modelled as
  \<^typ>\<open>string\<close>; the conversions \<^verbatim>\<open>[]byte(s)\<close> and \<^verbatim>\<open>string(b)\<close> copy the bytes
  unchanged. Go's \<^verbatim>\<open>int\<close> is taken to be 64 bits wide, so that the offsets and lengths of
  the buffers handled here never overflow; they are natural numbers.
\<close>

type_synonym byte = "8 word"

definition bytesOf :: "string \<Rightarrow> byte list" where
  "bytesOf s = map of_char s"

definition stringOf :: "byte list \<Rightarrow> string" where
  "stringOf b = map (\<lambda>w. char_of (unat w)) b"

text \<open>\<^verbatim>\<open>strings.HasPrefix\<close> and \<^verbatim>\<open>strings.TrimPrefix\<close> of the Go standard library.\<close>

definition HasPrefix :: "string \<Rightarrow> string \<Rightarrow> bool" where
  "HasPrefix s p = (length p \<le> length s \<and> take (length p) s = p)"

definition TrimPrefix :: "string \<Rightarrow> string \<Rightarrow> string" where
  "TrimPrefix s p = (if HasPrefix s p then drop (length p) s else s)"

section \<open>URI payloads\<close>

subsection \<open>Encoding: \<^verbatim>\<open>buildURIRecord\<close> (nfcwriter)\<close>

text \<open>
  The payload that \<^verbatim>\<open>buildURIRecord\<close> assembles before it adds the record header:
  identifier code 0x04 followed by the URI without its scheme.
\<close>

definition uriPayload :: "string \<Rightarrow> byte list" where
  "uriPayload uri =
     (let trimmed = TrimPrefix (TrimPrefix uri ''http://'') ''https://''
      in [0x04] @ bytesOf trimmed)"

text \<open>
  \<^verbatim>\<open>payloadLen := byte(len(payload))\<close> keeps the low 8 bits of the length, which is what
  \<^const>\<open>of_nat\<close> into \<^typ>\<open>byte\<close> does.
\<close>

definition buildURIRecord :: "string \<Rightarrow> byte list" where
  "buildURIRecord uri =
     (let payload = uriPayload uri;
          header = (0xD1 :: byte);
          typeLen = (0x01 :: byte);
          payloadLen = (of_nat (length payload) :: byte);
          typ = (of_char (CHR ''U'') :: byte);
          msg = [header, typeLen, payloadLen, typ]
      in msg @ payload)"

subsection \<open>Decoding: \<^verbatim>\<open>getURIPrefix\<close> and \<^verbatim>\<open>parseURIPayload\<close> (analyzer)\<close>

definition prefixes :: "(byte \<times> string) list" where
  "prefixes =
     [(0x00, ''''),
      (0x01, ''http://www.''),
      (0x02, ''https://www.''),
      (0x03, ''http://''),
      (0x04, ''https://''),
      (0x05, ''tel:''),
      (0x06, ''mailto:''),
      (0x07, ''ftp://anonymous:anonymous@''),
      (0x08, ''ftp://ftp.''),
      (0x09, ''ftps://''),
      (0x0A, ''sftp://''),
      (0x0B, ''smb://''),
      (0x0C, ''nfs://''),
      (0x0D, ''ftp://''),
      (0x0E, ''dav://''),
      (0x0F, ''news:''),
      (0x10, ''telnet://''),
      (0x11, ''imap:''),
      (0x12, ''rtsp://''),
      (0x13, ''urn:''),
      (0x14, ''pop:''),
      (0x15, ''sip:''),
      (0x16, ''sips:''),
      (0x17, ''tftp:''),
      (0x18, ''btspp://''),
      (0x19, ''btl2cap://''),
      (0x1A, ''btgoep://''),
      (0x1B, ''tcpobex://''),
      (0x1C, ''irdaobex://''),
      (0x1D, ''file://''),
      (0x1E, ''urn:epc:id:''),
      (0x1F, ''urn:epc:tag:''),
      (0x20, ''urn:epc:pat:''),
      (0x21, ''urn:epc:raw:''),
      (0x22, ''urn:epc:''),
      (0x23, ''urn:nfc:'')]"

definition getURIPrefix :: "byte \<Rightarrow> string" where
  "getURIPrefix code =
     (case map_of prefixes code of
        Some prefix \<Rightarrow> prefix
      | None \<Rightarrow> ''Unknown prefix'')"

text \<open>
  \<^verbatim>\<open>parseURIPayload\<close> prints what it finds. Each of its four outcomes is a constructor
  holding the values printed: the full URI with prefix code, prefix and suffix; the
  prefix alone; or one of the two error lines.
\<close>

datatype uri_result =
    EmptyURIPayload
  | URI string byte string string
  | URIPrefixOnly string byte
  | URINoSuffix

definition parseURIPayload :: "byte list \<Rightarrow> uri_result" where
  "parseURIPayload payload =
     (if length payload = 0 then EmptyURIPayload
      else
        let identifierCode = payload ! 0;
            prefix = getURIPrefix identifierCode
        in if length payload > 1 then
             let suffix = stringOf (drop 1 payload);
                 fullURI = prefix @ suffix
             in URI fullURI identifierCode prefix suffix
           else if prefix \<noteq> '''' then URIPrefixOnly prefix identifierCode
           else URINoSuffix)"

text \<open>The URI that \<^verbatim>\<open>parseURIPayload\<close> reports on its ``URI:'' line, if it prints one.\<close>

fun reportedURI :: "uri_result \<Rightarrow> string option" where
  "reportedURI (URI fullURI code prefix suffix) = Some fullURI"
| "reportedURI (URIPrefixOnly prefix code) = Some prefix"
| "reportedURI EmptyURIPayload = None"
| "reportedURI URINoSuffix = None"

subsection \<open>Text payloads: \<^verbatim>\<open>parseTextPayload\<close> (analyzer)\<close>

datatype text_result =
    EmptyTextPayload
  | InvalidTextRecord
  | Text string string string

definition parseTextPayload :: "byte list \<Rightarrow> text_result" where
  "parseTextPayload payload =
     (if length payload = 0 then EmptyTextPayload
      else
        let statusByte = payload ! 0;
            utf16 = ((statusByte AND 0x80) \<noteq> 0);
            langCodeLen = unat (statusByte AND 0x3F)
        in if length payload < 1 + langCodeLen then InvalidTextRecord
           else
             let langCode = stringOf (take langCodeLen (drop 1 payload));
                 textData = drop (1 + langCodeLen) payload;
                 encoding = (if utf16 then ''UTF-16'' else ''UTF-8'')
             in Text (stringOf textData) langCode encoding)"

section \<open>NDEF messages: \<^verbatim>\<open>parseNDEFMessage\<close> (analyzer)\<close>

text \<open>
  \<^verbatim>\<open>parseNDEFMessage\<close> walks the records of a message and prints each field as it reads
  it; a field that does not fit in the buffer prints an error line and ends the walk.
  The model returns the lines in the order printed, one constructor for each kind of
  line (blank lines and the textual description of the TNF are left out). The header
  line carries the header byte and the flags taken from it.
\<close>

record ndef_header =
  mb :: bool
  me :: bool
  cf :: bool
  sr :: bool
  il :: bool
  tnf :: byte

datatype ndef_event =
    EmptyNDEFMessage
  | MessageAnalysis
  | RecordNumber nat
  | RecordHeader byte ndef_header
  | ErrMissingTypeLength
  | TypeLength byte
  | ErrMissingPayloadLengthShort
  | ErrMissingPayloadLengthLong
  | PayloadLength "32 word"
  | ErrMissingIDLength
  | IDLength byte
  | ErrTypeLengthExceeds byte
  | RecordType "byte list"
  | RecordTypeNone
  | ErrIDLengthExceeds byte
  | RecordID string
  | ErrPayloadLengthExceeds "32 word" nat
  | PartialPayload "byte list"
  | Payload "byte list"
  | URIRecord uri_result
  | TextRecord text_result
  | UnknownWellKnownType byte
  | EndOfMessage

text \<open>The Go slice \<^verbatim>\<open>data[lo:hi]\<close>, used only where \<open>lo \<le> hi \<le> len(data)\<close> has been checked.\<close>

definition slice :: "'a list \<Rightarrow> nat \<Rightarrow> nat \<Rightarrow> 'a list" where
  "slice data lo hi = take (hi - lo) (drop lo data)"

text \<open>
  One pass through the body of the loop, for the record at \<open>offset0 < len(data)\<close>. The
  result is the lines printed and where the loop goes next: \<open>Some offset\<close> to go round
  again from that offset, \<open>None\<close> after a \<^verbatim>\<open>break\<close>. The test for an unexpected end
  of the data at the top of the body repeats the loop condition and can never succeed;
  it has no counterpart here.
\<close>

definition parseRecord :: "byte list \<Rightarrow> nat \<Rightarrow> nat \<Rightarrow> ndef_event list \<times> nat option" where
  "parseRecord data offset0 recordNum =
     (let header = data ! offset0;
          hdr = \<lparr>mb = ((header AND 0x80) \<noteq> 0),
                 me = ((header AND 0x40) \<noteq> 0),
                 cf = ((header AND 0x20) \<noteq> 0),
                 sr = ((header AND 0x10) \<noteq> 0),
                 il = ((header AND 0x08) \<noteq> 0),
                 tnf = header AND 0x07\<rparr>;
          out = [RecordNumber recordNum, RecordHeader header hdr];
          offset = offset0 + 1
      in if offset \<ge> length data then (out @ [ErrMissingTypeLength], None)
      else
      let typeLength = data ! offset;
          out = out @ [TypeLength typeLength];
          offset = offset + 1
      in if sr hdr \<and> offset \<ge> length data then (out @ [ErrMissingPayloadLengthShort], None)
      else if \<not> sr hdr \<and> offset + 3 \<ge> length data then (out @ [ErrMissingPayloadLengthLong], None)
      else
      let payloadLength =
            (if sr hdr then (ucast (data ! offset) :: 32 word)
             else push_bit 24 (ucast (data ! offset)) OR
                  push_bit 16 (ucast (data ! (offset + 1))) OR
                  push_bit 8 (ucast (data ! (offset + 2))) OR
                  ucast (data ! (offset + 3)));
          offset = (if sr hdr then offset + 1 else offset + 4);
          out = out @ [PayloadLength payloadLength]
      in if il hdr \<and> offset \<ge> length data then (out @ [ErrMissingIDLength], None)
      else
      let idLength = (if il hdr then data ! offset else 0);
          out = (if il hdr then out @ [IDLength idLength] else out);
          offset = (if il hdr then offset + 1 else offset)
      in if typeLength > 0 \<and> offset + unat typeLength > length data
         then (out @ [ErrTypeLengthExceeds typeLength], None)
      else
      let recordType = (if typeLength > 0 then slice data offset (offset + unat typeLength) else []);
          out = out @ [if typeLength > 0 then RecordType recordType else RecordTypeNone];
          offset = (if typeLength > 0 then offset + unat typeLength else offset)
      in if il hdr \<and> idLength > 0 \<and> offset + unat idLength > length data
         then (out @ [ErrIDLengthExceeds idLength], None)
      else
      let out = (if il hdr \<and> idLength > 0
                 then out @ [RecordID (stringOf (slice data offset (offset + unat idLength)))]
                 else out);
          offset = (if il hdr \<and> idLength > 0 then offset + unat idLength else offset)
      in if payloadLength > 0 \<and> offset + unat payloadLength > length data then
           let remaining = length data - offset;
               out = out @ [ErrPayloadLengthExceeds payloadLength remaining]
           in if remaining > 0 then
                let payload = drop offset data;
                    out = out @ [PartialPayload payload]
                in if typeLength = 1 \<and> length recordType > 0 \<and> recordType ! 0 = of_char (CHR ''U'')
                   then (out @ [URIRecord (parseURIPayload payload)], None)
                   else (out, None)
              else (out, None)
      else
      let payload = slice data offset (offset + unat payloadLength);
          out = (if payloadLength > 0 then
                   out @ [Payload payload] @
                   (if typeLength = 1 \<and> length recordType > 0 then
                      (if recordType ! 0 = of_char (CHR ''U'') then [URIRecord (parseURIPayload payload)]
                       else if recordType ! 0 = of_char (CHR ''T'') then [TextRecord (parseTextPayload payload)]
                       else [UnknownWellKnownType (recordType ! 0)])
                    else [])
                 else out);
          offset = (if payloadLength > 0 then offset + unat payloadLength else offset)
      in if me hdr then (out @ [EndOfMessage], None) else (out, Some offset))"

lemma parseRecord_advances:
  "parseRecord data offset recordNum = (out, Some offset') \<Longrightarrow> offset < offset'"
  by (auto simp: parseRecord_def Let_def split: if_splits)

function parseRecords :: "byte list \<Rightarrow> nat \<Rightarrow> nat \<Rightarrow> ndef_event list" where
  "parseRecords data offset recordNum =
     (if offset < length data then
        (case parseRecord data offset recordNum of
           (out, None) \<Rightarrow> out
         | (out, Some offset') \<Rightarrow> out @ parseRecords data offset' (recordNum + 1))
      else [])"
  by pat_completeness auto
termination
  by (relation "measure (\<lambda>(data, offset, recordNum). length data - offset)")
     (auto dest!: parseRecord_advances [OF sym])

declare parseRecords.simps [simp del]

definition parseNDEFMessage :: "byte list \<Rightarrow> ndef_event list" where
  "parseNDEFMessage data =
     (if length data = 0 then [EmptyNDEFMessage]
      else MessageAnalysis # parseRecords data 0 1)"

text \<open>The URIs reported in the lines of an analysis, in order.\<close>

fun reportedURIs :: "ndef_event list \<Rightarrow> string list" where
  "reportedURIs [] = []"
| "reportedURIs (URIRecord r # evs) =
     (case reportedURI r of Some uri \<Rightarrow> uri # reportedURIs evs | None \<Rightarrow> reportedURIs evs)"
| "reportedURIs (ev # evs) = reportedURIs evs"

section \<open>TLV blocks: \<^verbatim>\<open>analyzeNDEFStructure\<close> (analyzer)\<close>

text \<open>
  Each pass through the loop of \<^verbatim>\<open>analyzeNDEFStructure\<close> prints the position and the
  type byte of one TLV block, then what it makes of the block. The model records one
  entry for each pass: the page, the byte within the page, the type byte, and the
  finding. An NDEF block is handed to \<^verbatim>\<open>parseNDEFMessage\<close>, whose lines are kept with
  the entry.
\<close>

datatype tlv_entry =
    NullTLV
  | NDEFMissingLength
  | NDEFEmpty
  | NDEFTruncated byte nat "(byte list \<times> ndef_event list) option"
  | NDEFMessageTLV byte "byte list" "ndef_event list"
  | TerminatorTLV bool
  | ProprietaryTLV "byte option"
  | InvalidTLV

datatype tlv_event =
    NoData
  | TLV int nat byte tlv_entry
  | NoNDEFFound

text \<open>
  What one pass does with the block at \<open>offset < len(data)\<close>: the entry, and either
  \<open>Some (offset, foundNDEF)\<close> to go round again or \<open>None\<close> where the function returns.
  For an NDEF block that runs past the end of the data, \<^const>\<open>NDEFTruncated\<close> holds
  the declared length, the number of value bytes left, and those bytes with their
  analysis when there is at least one. For a terminator, the flag tells whether the
  ``structure complete'' line is printed.
\<close>

definition analyzeTLV ::
  "byte list \<Rightarrow> int \<Rightarrow> nat \<Rightarrow> bool \<Rightarrow> tlv_event \<times> (nat \<times> bool) option" where
  "analyzeTLV data pageOffset offset foundNDEF =
     (let tlvType = data ! offset;
          currentPage = pageOffset + int (offset div 4);
          byteInPage = offset mod 4;
          at = TLV currentPage byteInPage tlvType
      in if tlvType = 0x00 then (at NullTLV, Some (offset + 1, foundNDEF))
         else if tlvType = 0x03 then
           (if offset + 1 \<ge> length data then (at NDEFMissingLength, Some (offset + 1, True))
            else
              let len = data ! (offset + 1)
              in if len = 0 then (at NDEFEmpty, Some (offset + 2, True))
                 else if offset + 2 + unat len > length data then
                   let remaining = length data - offset - 2
                   in if remaining > 0 then
                        let ndefData = slice data (offset + 2) (offset + 2 + remaining)
                        in (at (NDEFTruncated len remaining (Some (ndefData, parseNDEFMessage ndefData))), None)
                      else (at (NDEFTruncated len remaining None), None)
                 else
                   let ndefData = slice data (offset + 2) (offset + 2 + unat len)
                   in (at (NDEFMessageTLV len ndefData (parseNDEFMessage ndefData)),
                       Some (offset + 2 + unat len, True)))
         else if tlvType = 0xFE then (at (TerminatorTLV foundNDEF), None)
         else if tlvType \<ge> 0x01 \<and> tlvType \<le> 0xFD then
           (if offset + 1 < length data then
              let len = data ! (offset + 1)
              in (at (ProprietaryTLV (Some len)), Some (offset + 2 + unat len, foundNDEF))
            else (at (ProprietaryTLV None), Some (offset + 1, foundNDEF)))
         else (at InvalidTLV, Some (offset + 1, foundNDEF)))"

lemma analyzeTLV_advances:
  "analyzeTLV data pageOffset offset foundNDEF = (ev, Some (offset', foundNDEF')) \<Longrightarrow> offset < offset'"
  by (auto simp: analyzeTLV_def Let_def split: if_splits)

function analyzeTLVs :: "byte list \<Rightarrow> int \<Rightarrow> nat \<Rightarrow> bool \<Rightarrow> tlv_event list" where
  "analyzeTLVs data pageOffset offset foundNDEF =
     (if offset < length data then
        (case analyzeTLV data pageOffset offset foundNDEF of
           (ev, None) \<Rightarrow> [ev]
         | (ev, Some (offset', foundNDEF')) \<Rightarrow> ev # analyzeTLVs data pageOffset offset' foundNDEF')
      else if \<not> foundNDEF then [NoNDEFFound]
      else [])"
  by pat_completeness auto
termination
  by (relation "measure (\<lambda>(data, pageOffset, offset, foundNDEF). length data - offset)")
     (auto dest!: analyzeTLV_advances [OF sym])

declare analyzeTLVs.simps [simp del]

definition analyzeNDEFStructure :: "byte list \<Rightarrow> int \<Rightarrow> tlv_event list" where
  "analyzeNDEFStructure data startPage =
     (if length data = 0 then [NoData]
      else analyzeTLVs data startPage 0 False)"

text \<open>
  The entries that report a block running past the end of the data (the line
  ``NDEF length exceeds available data'').
\<close>

fun malformedTLV :: "tlv_event \<Rightarrow> bool" where
  "malformedTLV (TLV currentPage byteInPage tlvType (NDEFTruncated len remaining partial)) = True"
| "malformedTLV ev = False"

section \<open>Static lock bytes: \<^verbatim>\<open>analyzeLockBytes\<close> (analyzer)\<close>

text \<open>
  The decoding of the two static lock bytes, bytes 2 and 3 of page 2: the test of bit
  \<open>i\<close> and the loop that collects the numbers of the locked pages.
\<close>

definition bitSet :: "nat \<Rightarrow> byte \<Rightarrow> byte \<Rightarrow> bool" where
  "bitSet i lock0 lock1 =
     (if i < 8 then (drop_bit i lock0 AND 1) = 1
      else (drop_bit (i - 8) lock1 AND 1) = 1)"

function lockedPagesFrom :: "nat \<Rightarrow> byte \<Rightarrow> byte \<Rightarrow> nat list \<Rightarrow> nat list" where
  "lockedPagesFrom i lock0 lock1 lockedPages =
     (if i < 16 then
        lockedPagesFrom (i + 1) lock0 lock1
          (if bitSet i lock0 lock1 then lockedPages @ [3 + i] else lockedPages)
      else lockedPages)"
  by pat_completeness auto
termination
  by (relation "measure (\<lambda>(i, lock0, lock1, lockedPages). 16 - i)") auto

declare lockedPagesFrom.simps [simp del]

definition staticLockedPages :: "byte \<Rightarrow> byte \<Rightarrow> nat list" where
  "staticLockedPages lock0 lock1 = lockedPagesFrom 0 lock0 lock1 []"

section \<open>The card reader\<close>

text \<open>
  The card is reached through \<^verbatim>\<open>card.Transmit\<close> of the PC/SC library, which is outside
  the repository. It is a parameter \<open>T\<close> of the model: given the state of the device and
  a command APDU it returns the response, or an error, and the next state of the device.
  A value of the record type \<open>card\<close> pairs the state of the device with the list of
  the APDUs transmitted so far, oldest first, so that the commands a function issues can
  be read off. The Go parameter \<^verbatim>\<open>card\<close> is the variable \<open>crd\<close> below.
\<close>

datatype error =
    CardError string
  | ShortAPDUResponse
  | APDUFailed byte byte
  | PageWriteSize nat
  | NDEFTooLarge nat
  | Wrapped string error
  | WritePageFailed byte error

type_synonym 'd transport = "'d \<Rightarrow> byte list \<Rightarrow> (error + byte list) \<times> 'd"

record 'd card =
  device :: 'd
  sent :: "byte list list"

definition cardTransmit :: "'d transport \<Rightarrow> 'd card \<Rightarrow> byte list \<Rightarrow> (error + byte list) \<times> 'd card" where
  "cardTransmit T crd apdu =
     (case T (device crd) apdu of
        (resp, d) \<Rightarrow> (resp, \<lparr>device = d, sent = sent crd @ [apdu]\<rparr>))"

definition transmit :: "'d transport \<Rightarrow> 'd card \<Rightarrow> byte list \<Rightarrow> (error + byte list) \<times> 'd card" where
  "transmit T crd apdu =
     (case cardTransmit T crd apdu of
        (Inl err, crd') \<Rightarrow> (Inl err, crd')
      | (Inr resp, crd') \<Rightarrow>
          if length resp < 2 then (Inl ShortAPDUResponse, crd')
          else
            let sw1 = resp ! (length resp - 2);
                sw2 = resp ! (length resp - 1)
            in if sw1 \<noteq> 0x90 \<or> sw2 \<noteq> 0x00 then (Inl (APDUFailed sw1 sw2), crd')
               else (Inr (take (length resp - 2) resp), crd'))"

definition readPage :: "'d transport \<Rightarrow> 'd card \<Rightarrow> byte \<Rightarrow> (error + byte list) \<times> 'd card" where
  "readPage T crd page = transmit T crd [0xFF, 0xB0, 0x00, page, 0x04]"

definition writePage :: "'d transport \<Rightarrow> 'd card \<Rightarrow> byte \<Rightarrow> byte list \<Rightarrow> error option \<times> 'd card" where
  "writePage T crd page data =
     (if length data \<noteq> 4 then (Some (PageWriteSize (length data)), crd)
      else
        let apdu = [0xFF, 0xD6, 0x00, page, 0x04] @ data
        in case transmit T crd apdu of
             (Inl err, crd') \<Rightarrow> (Some err, crd')
           | (Inr resp, crd') \<Rightarrow> (None, crd'))"

section \<open>Tag type: \<^verbatim>\<open>identifyTagType\<close> (analyzer)\<close>

definition identifyTagType :: "'d transport \<Rightarrow> 'd card \<Rightarrow> string \<times> 'd card" where
  "identifyTagType T crd =
     (case readPage T crd 0x00 of
        (Inl err, crd0) \<Rightarrow> (''unknown'', crd0)
      | (Inr page0, crd0) \<Rightarrow>
          if length page0 \<ge> 1 then
            let uid0 = page0 ! 0
            in if uid0 = 0x04 then
                 (case readPage T crd0 0x2C of
                    (Inl err, crd1) \<Rightarrow> (''NTAG213'', crd1)
                  | (Inr page, crd1) \<Rightarrow>
                      (case readPage T crd1 0x86 of
                         (Inl err, crd2) \<Rightarrow> (''NTAG215'', crd2)
                       | (Inr page, crd2) \<Rightarrow> (''NTAG216'', crd2)))
               else (''Type2-compatible'', crd0)
          else (''unknown'', crd0))"

section \<open>Formatting and writing: \<^verbatim>\<open>formatType2Tag\<close>, \<^verbatim>\<open>writeNDEFToType2\<close> (nfcwriter)\<close>

definition formatType2Tag :: "'d transport \<Rightarrow> 'd card \<Rightarrow> error option \<times> 'd card" where
  "formatType2Tag T crd =
     (let lockBytes = [0x00, 0x00, 0x00, 0x00]
      in case writePage T crd 0x02 lockBytes of
           (Some err, crd1) \<Rightarrow> (Some (Wrapped ''write lock bytes'' err), crd1)
         | (None, crd1) \<Rightarrow>
             let cc = [0xE1, 0x10, 0x3F, 0x00]
             in case writePage T crd1 0x03 cc of
                  (Some err, crd2) \<Rightarrow> (Some (Wrapped ''write capability container'' err), crd2)
                | (None, crd2) \<Rightarrow>
                    let clearData = [0x00, 0x00, 0x00, 0xFE]
                    in case writePage T crd2 0x04 clearData of
                         (Some err, crd3) \<Rightarrow> (Some (Wrapped ''write initial NDEF area'' err), crd3)
                       | (None, crd3) \<Rightarrow> (None, crd3))"

text \<open>
  The buffer \<^verbatim>\<open>tlv\<close> that \<^verbatim>\<open>writeNDEFToType2\<close> builds before it writes: type 0x03, the
  length in one byte, the message, the terminator 0xFE, and zero bytes up to a multiple
  of four.
\<close>

definition tlvBuffer :: "byte list \<Rightarrow> byte list" where
  "tlvBuffer ndef =
     (let tlv = [0x03, of_nat (length ndef)] @ ndef @ [0xFE];
          pad = (4 - (length tlv mod 4)) mod 4
      in if pad > 0 then tlv @ replicate pad 0x00 else tlv)"

text \<open>
  The loop that writes \<^verbatim>\<open>tlv[i:i+4]\<close> to consecutive pages. The length of the buffer
  is a multiple of four, so the slice always has four bytes.
\<close>

function writePages :: "'d transport \<Rightarrow> 'd card \<Rightarrow> byte list \<Rightarrow> nat \<Rightarrow> byte \<Rightarrow> error option \<times> 'd card" where
  "writePages T crd tlv i page =
     (if i < length tlv then
        (case writePage T crd page (slice tlv i (i + 4)) of
           (Some err, crd') \<Rightarrow> (Some (WritePageFailed page err), crd')
         | (None, crd') \<Rightarrow> writePages T crd' tlv (i + 4) (page + 1))
      else (None, crd))"
  by pat_completeness auto
termination
  by (relation "measure (\<lambda>(T, crd, tlv, i, page). length tlv - i)") auto

declare writePages.simps [simp del]

definition writeNDEFToType2 :: "'d transport \<Rightarrow> 'd card \<Rightarrow> byte list \<Rightarrow> error option \<times> 'd card" where
  "writeNDEFToType2 T crd ndef =
     (if length ndef > 254 then (Some (NDEFTooLarge (length ndef)), crd)
      else writePages T crd (tlvBuffer ndef) 0 0x04)"

section \<open>Properties of the URI codec\<close>

lemma char_of_unat_of_char: "char_of (unat (of_char c :: byte)) = c"
proof -
  have "(of_char c :: byte) = of_nat (of_char c)"
    by (simp only: of_nat_of_char)
  then have "unat (of_char c :: byte) = (of_char c :: nat) mod 256"
    by (simp only: unat_of_nat) simp
  then show ?thesis
    by simp
qed

lemma stringOf_bytesOf: "stringOf (bytesOf s) = s"
  by (induction s) (simp_all add: stringOf_def bytesOf_def char_of_unat_of_char)

lemma length_bytesOf: "length (bytesOf s) = length s"
  by (simp add: bytesOf_def)

lemma getURIPrefix_https: "getURIPrefix 0x04 = ''https://''"
  by (simp add: getURIPrefix_def prefixes_def)

lemma HasPrefix_iff: "HasPrefix s p \<longleftrightarrow> (\<exists>r. s = p @ r)"
proof
  assume "HasPrefix s p"
  then have "s = p @ drop (length p) s"
    by (metis HasPrefix_def append_take_drop_id)
  then show "\<exists>r. s = p @ r" ..
next
  assume "\<exists>r. s = p @ r"
  then show "HasPrefix s p"
    by (auto simp: HasPrefix_def)
qed

lemma TrimPrefix_append: "TrimPrefix (p @ r) p = r"
  by (simp add: TrimPrefix_def HasPrefix_def)

lemma TrimPrefix_unchanged: "\<not> HasPrefix s p \<Longrightarrow> TrimPrefix s p = s"
  by (simp add: TrimPrefix_def)

lemma https_not_http: "\<not> HasPrefix (''https://'' @ r) ''http://''"
  by (simp add: HasPrefix_def)

lemma trimmed_https: "TrimPrefix (TrimPrefix (''https://'' @ r) ''http://'') ''https://'' = r"
  by (simp only: TrimPrefix_unchanged [OF https_not_http] TrimPrefix_append)

text \<open>
  Whatever the URI, the payload built for it is reported by the decoder as a URI with
  the scheme \<open>https://\<close>.
\<close>

lemma reportedURI_uriPayload:
  "reportedURI (parseURIPayload (uriPayload s)) =
     Some (''https://'' @ TrimPrefix (TrimPrefix s ''http://'') ''https://'')"
  by (simp add: parseURIPayload_def uriPayload_def getURIPrefix_https stringOf_bytesOf
      Let_def length_bytesOf)

text \<open>
  C1 (as the code has it): a URI that begins with \<open>https://\<close> is reported unchanged when
  the payload built for it by \<^verbatim>\<open>buildURIRecord\<close> is decoded by \<^verbatim>\<open>parseURIPayload\<close>. A
  URI that begins with \<open>http://\<close> is not: the encoder always writes prefix code 0x04, so
  the URI comes back with the scheme \<open>https://\<close> in front of what followed \<open>http://\<close> (the
  statement leaves aside a remainder that itself begins with \<open>https://\<close>).
\<close>

theorem uri_roundtrip_https:
  "(HasPrefix s ''https://'' \<longrightarrow> reportedURI (parseURIPayload (uriPayload s)) = Some s) \<and>
   (HasPrefix s ''http://'' \<and> \<not> HasPrefix (drop 7 s) ''https://'' \<longrightarrow>
      reportedURI (parseURIPayload (uriPayload s)) = Some (''https://'' @ drop 7 s))"
proof (intro conjI impI)
  assume "HasPrefix s ''https://''"
  then obtain r where s: "s = ''https://'' @ r"
    unfolding HasPrefix_iff ..
  show "reportedURI (parseURIPayload (uriPayload s)) = Some s"
    unfolding reportedURI_uriPayload s trimmed_https ..
next
  assume a: "HasPrefix s ''http://'' \<and> \<not> HasPrefix (drop 7 s) ''https://''"
  then obtain r where s: "s = ''http://'' @ r"
    unfolding HasPrefix_iff by blast
  have r: "drop 7 s = r"
    by (simp add: s)
  from a have "\<not> HasPrefix r ''https://''"
    unfolding r ..
  then have "TrimPrefix r ''https://'' = r"
    by (rule TrimPrefix_unchanged)
  moreover have "TrimPrefix s ''http://'' = r"
    unfolding s by (rule TrimPrefix_append)
  ultimately have "TrimPrefix (TrimPrefix s ''http://'') ''https://'' = r"
    by (simp only:)
  then show "reportedURI (parseURIPayload (uriPayload s)) = Some (''https://'' @ drop 7 s)"
    by (simp only: reportedURI_uriPayload r)
qed

theorem uri_roundtrip_https_witness:
  "HasPrefix ''https://example.com'' ''https://'' \<and>
   reportedURI (parseURIPayload (uriPayload ''https://example.com'')) = Some ''https://example.com'' \<and>
   HasPrefix ''http://example.com'' ''http://'' \<and>
   \<not> HasPrefix (drop 7 ''http://example.com'') ''https://'' \<and>
   reportedURI (parseURIPayload (uriPayload ''http://example.com'')) = Some ''https://example.com''"
  using uri_roundtrip_https [of "''https://example.com''"]
    uri_roundtrip_https [of "''http://example.com''"]
  by (simp add: HasPrefix_def)

text \<open>
  C1 as stated fails for \<open>http://a\<close>: it begins with \<open>http://\<close>, and decoding its payload
  reports \<open>https://a\<close>.
\<close>

theorem uri_roundtrip_http_counterexample:
  "HasPrefix ''http://a'' ''http://'' \<and>
   reportedURI (parseURIPayload (uriPayload ''http://a'')) = Some ''https://a'' \<and>
   reportedURI (parseURIPayload (uriPayload ''http://a'')) \<noteq> Some ''http://a''"
  by (simp add: reportedURI_uriPayload TrimPrefix_def HasPrefix_def)

section \<open>Properties of the NDEF message parser\<close>

text \<open>
  C3 (as the code has it): decoding the message \<open>D1 01 0B 55 04\<close> followed by the bytes of
  \<open>example.com\<close> yields exactly one record, with MB and ME set, TNF 1 and type \<open>U\<close>. Its
  payload is the 11 bytes that the length byte 0x0B declares, 0x04 and the bytes of
  \<open>example.co\<close>, reported as the URI \<open>https://example.co\<close>; the last byte of the buffer
  lies beyond the record and is not read. With the length byte 0x0C, which counts the
  prefix code as \<^verbatim>\<open>buildURIRecord\<close> does, the URI reported is \<open>https://example.com\<close>.
\<close>

theorem parse_example_message:
  "parseNDEFMessage ([0xD1, 0x01, 0x0B, 0x55, 0x04] @ bytesOf ''example.com'') =
     [MessageAnalysis, RecordNumber 1,
      RecordHeader 0xD1 \<lparr>mb = True, me = True, cf = False, sr = True, il = False, tnf = 1\<rparr>,
      TypeLength 1, PayloadLength 11, RecordType (bytesOf ''U''),
      Payload (0x04 # bytesOf ''example.co''),
      URIRecord (URI ''https://example.co'' 0x04 ''https://'' ''example.co''),
      EndOfMessage] \<and>
   parseNDEFMessage ([0xD1, 0x01, 0x0C, 0x55, 0x04] @ bytesOf ''example.com'') =
     [MessageAnalysis, RecordNumber 1,
      RecordHeader 0xD1 \<lparr>mb = True, me = True, cf = False, sr = True, il = False, tnf = 1\<rparr>,
      TypeLength 1, PayloadLength 12, RecordType (bytesOf ''U''),
      Payload (0x04 # bytesOf ''example.com''),
      URIRecord (URI ''https://example.com'' 0x04 ''https://'' ''example.com''),
      EndOfMessage]"
  by code_simp

text \<open>
  C3 as stated fails: the only URI reported for the message with length byte 0x0B is
  \<open>https://example.co\<close>, not \<open>https://example.com\<close>.
\<close>

theorem parse_example_message_counterexample:
  "reportedURIs (parseNDEFMessage ([0xD1, 0x01, 0x0B, 0x55, 0x04] @ bytesOf ''example.com'')) =
     [''https://example.co''] \<and>
   ''https://example.com'' \<notin>
     set (reportedURIs (parseNDEFMessage ([0xD1, 0x01, 0x0B, 0x55, 0x04] @ bytesOf ''example.com'')))"
  by code_simp

section \<open>Properties of the TLV analysis\<close>

lemma analyzeTLVs_continue:
  "offset < length data \<Longrightarrow>
   analyzeTLV data pageOffset offset foundNDEF = (ev, Some (offset', foundNDEF')) \<Longrightarrow>
   analyzeTLVs data pageOffset offset foundNDEF = ev # analyzeTLVs data pageOffset offset' foundNDEF'"
  by (subst analyzeTLVs.simps) simp

lemma analyzeTLVs_return:
  "offset < length data \<Longrightarrow>
   analyzeTLV data pageOffset offset foundNDEF = (ev, None) \<Longrightarrow>
   analyzeTLVs data pageOffset offset foundNDEF = [ev]"
  by (subst analyzeTLVs.simps) simp

lemma analyzeTLVs_end:
  "length data \<le> offset \<Longrightarrow>
   analyzeTLVs data pageOffset offset foundNDEF = (if foundNDEF then [] else [NoNDEFFound])"
  by (subst analyzeTLVs.simps) simp

text \<open>
  C4 (as the code has it): where the type byte \<open>t\<close> is in 0x01--0xFD and is not 0x03, the
  block is reported as proprietary. When a length byte follows, it is reported and the
  analysis goes on behind the declared number of value bytes, which it does not read.
  When the declared length runs past the end of the data, the proprietary entry is the
  last one: nothing reports the truncation and no value bytes are shown; only the
  warning that no NDEF block was found follows, if none was. When no length byte
  follows, the entry has no length and is the last one as well.
\<close>

theorem proprietary_tlv_skipped:
  assumes "offset < length data" and "data ! offset = t"
    and "0x01 \<le> t" and "t \<le> 0xFD" and "t \<noteq> 0x03"
  shows "(offset + 1 < length data \<longrightarrow>
            analyzeTLVs data pageOffset offset foundNDEF =
              TLV (pageOffset + int (offset div 4)) (offset mod 4) t
                (ProprietaryTLV (Some (data ! (offset + 1)))) #
              analyzeTLVs data pageOffset (offset + 2 + unat (data ! (offset + 1))) foundNDEF) \<and>
         (offset + 1 < length data \<and> length data < offset + 2 + unat (data ! (offset + 1)) \<longrightarrow>
            analyzeTLVs data pageOffset offset foundNDEF =
              TLV (pageOffset + int (offset div 4)) (offset mod 4) t
                (ProprietaryTLV (Some (data ! (offset + 1)))) #
              (if foundNDEF then [] else [NoNDEFFound])) \<and>
         (offset + 1 = length data \<longrightarrow>
            analyzeTLVs data pageOffset offset foundNDEF =
              TLV (pageOffset + int (offset div 4)) (offset mod 4) t (ProprietaryTLV None) #
              (if foundNDEF then [] else [NoNDEFFound]))"
proof -
  have t: "t \<noteq> 0x00" "t \<noteq> 0xFE"
    using assms(3,4) by auto
  have step: "analyzeTLV data pageOffset offset foundNDEF =
      (TLV (pageOffset + int (offset div 4)) (offset mod 4) t
         (ProprietaryTLV (Some (data ! (offset + 1)))),
       Some (offset + 2 + unat (data ! (offset + 1)), foundNDEF))"
    if "offset + 1 < length data"
    using that assms t by (simp add: analyzeTLV_def Let_def)
  have last: "analyzeTLV data pageOffset offset foundNDEF =
      (TLV (pageOffset + int (offset div 4)) (offset mod 4) t (ProprietaryTLV None),
       Some (offset + 1, foundNDEF))"
    if "offset + 1 = length data"
    using that assms t by (simp add: analyzeTLV_def Let_def)
  show ?thesis
    using assms(1)
    by (auto simp: analyzeTLVs_continue [OF _ step] analyzeTLVs_continue [OF _ last] analyzeTLVs_end)
qed

theorem proprietary_tlv_skipped_witness:
  "analyzeTLVs [0x05, 0x01, 0xAA, 0xFE] 4 0 False =
     [TLV 4 0 0x05 (ProprietaryTLV (Some 0x01)), TLV 4 3 0xFE (TerminatorTLV False)] \<and>
   analyzeTLVs [0x05, 0x04, 0xAA] 4 0 False =
     [TLV 4 0 0x05 (ProprietaryTLV (Some 0x04)), NoNDEFFound]"
proof -
  have rest: "analyzeTLVs [0x05, 0x01, 0xAA, 0xFE] 4 (0 + 2 + unat (0x01 :: byte)) False =
      [TLV 4 3 0xFE (TerminatorTLV False)]"
    by code_simp
  show ?thesis
    using proprietary_tlv_skipped [of 0 "[0x05, 0x01, 0xAA, 0xFE]" "0x05" 4 False, THEN conjunct1]
      proprietary_tlv_skipped [of 0 "[0x05, 0x04, 0xAA]" "0x05" 4 False, THEN conjunct2]
      rest
    by simp
qed

text \<open>
  C4 as stated fails on the data \<open>05 04 AA\<close>: the proprietary block declares four value
  bytes where one is left, and the analysis reports no truncated block and does not
  show the byte 0xAA.
\<close>

theorem proprietary_tlv_truncated_counterexample:
  "analyzeNDEFStructure [0x05, 0x04, 0xAA] 4 =
     [TLV 4 0 0x05 (ProprietaryTLV (Some 0x04)), NoNDEFFound] \<and>
   filter malformedTLV (analyzeNDEFStructure [0x05, 0x04, 0xAA] 4) = []"
  by code_simp

text \<open>
  C6: the analysis of \<open>03 05 b1 b2 b3 b4 b5 FE 99\<close> has exactly two entries: the NDEF
  block with the value \<open>b1 \<dots> b5\<close>, and the terminator, at which it stops; the byte 0x99
  behind the terminator gives no entry.
\<close>

theorem tlv_decode_example:
  "analyzeNDEFStructure [0x03, 0x05, b1, b2, b3, b4, b5, 0xFE, 0x99] startPage =
     [TLV startPage 0 0x03
        (NDEFMessageTLV 5 [b1, b2, b3, b4, b5] (parseNDEFMessage [b1, b2, b3, b4, b5])),
      TLV (startPage + 1) 3 0xFE (TerminatorTLV True)]"
proof -
  let ?data = "[0x03, 0x05, b1, b2, b3, b4, b5, 0xFE, 0x99]"
  have 1: "analyzeTLV ?data startPage 0 False =
     (TLV startPage 0 0x03
        (NDEFMessageTLV 5 [b1, b2, b3, b4, b5] (parseNDEFMessage [b1, b2, b3, b4, b5])),
      Some (7, True))"
    by (simp add: analyzeTLV_def slice_def Let_def)
  have 2: "analyzeTLV ?data startPage 7 True = (TLV (startPage + 1) 3 0xFE (TerminatorTLV True), None)"
    by (simp add: analyzeTLV_def)
  show ?thesis
    by (simp add: analyzeNDEFStructure_def analyzeTLVs_continue [OF _ 1] analyzeTLVs_return [OF _ 2])
qed

text \<open>
  C10: where the type byte 0x03 is followed by the length byte 0x00, the analysis emits
  an empty NDEF entry and goes on with the block two bytes further on.
\<close>

theorem empty_ndef_tlv_continues:
  assumes "offset + 1 < length data" and "data ! offset = 0x03" and "data ! (offset + 1) = 0x00"
  shows "analyzeTLVs data pageOffset offset foundNDEF =
           TLV (pageOffset + int (offset div 4)) (offset mod 4) 0x03 NDEFEmpty #
           analyzeTLVs data pageOffset (offset + 2) True"
proof -
  have "analyzeTLV data pageOffset offset foundNDEF =
          (TLV (pageOffset + int (offset div 4)) (offset mod 4) 0x03 NDEFEmpty, Some (offset + 2, True))"
    using assms by (simp add: analyzeTLV_def)
  with assms(1) show ?thesis
    by (simp add: analyzeTLVs_continue)
qed

theorem empty_ndef_tlv_continues_witness:
  "[0x00, 0x03, 0x00, 0xFE] ! 1 = (0x03 :: byte) \<and>
   [0x00, 0x03, 0x00, 0xFE] ! (1 + 1) = (0x00 :: byte) \<and>
   analyzeTLVs [0x00, 0x03, 0x00, 0xFE] 4 1 False =
     [TLV 4 1 0x03 NDEFEmpty, TLV 4 3 0xFE (TerminatorTLV True)]"
proof -
  have rest: "analyzeTLVs [0x00, 0x03, 0x00, 0xFE] 4 (1 + 2) True = [TLV 4 3 0xFE (TerminatorTLV True)]"
    by code_simp
  show ?thesis
    using empty_ndef_tlv_continues [of 1 "[0x00, 0x03, 0x00, 0xFE]" 4 False] rest
    by simp
qed

section \<open>Properties of the static lock decoding\<close>

lemma bitSet_bit:
  "bitSet i lock0 lock1 \<longleftrightarrow> (if i < 8 then bit lock0 i else bit lock1 (i - 8))"
  by (simp add: bitSet_def and_one_eq bit_iff_odd_drop_bit odd_iff_mod_2_eq_one)

lemma lockedPagesFrom_eq:
  "lockedPagesFrom i lock0 lock1 acc =
     acc @ map (\<lambda>j. 3 + j) (filter (\<lambda>j. bitSet j lock0 lock1) [i..<16])"
proof (induction i lock0 lock1 acc rule: lockedPagesFrom.induct)
  case (1 i lock0 lock1 lockedPages)
  show ?case
  proof (cases "i < 16")
    case True
    then have "[i..<16] = i # [i + 1..<16]"
      by (simp add: upt_conv_Cons)
    with True "1" show ?thesis
      by (subst lockedPagesFrom.simps) simp
  next
    case False
    then show ?thesis
      by (subst lockedPagesFrom.simps) simp
  qed
qed

lemma staticLockedPages_eq:
  "staticLockedPages lock0 lock1 = map (\<lambda>j. 3 + j) (filter (\<lambda>j. bitSet j lock0 lock1) [0..<16])"
  by (simp add: staticLockedPages_def lockedPagesFrom_eq)

lemma field_bit:
  "i < 16 \<Longrightarrow> bit (ucast lock0 OR push_bit 8 (ucast lock1) :: 16 word) i \<longleftrightarrow> bitSet i lock0 lock1"
  for lock0 lock1 :: byte
  by (auto simp: bitSet_bit bit_simps dest: bit_imp_le_length)

text \<open>
  C8: with the two lock bytes read as one 16-bit field, \<open>lock0\<close> the low byte and \<open>lock1\<close>
  the high byte, page \<open>3 + i\<close> is listed as locked exactly when bit \<open>i\<close> of the field is
  set, for \<open>i\<close> from 0 to 15; no page outside 3 to 18 is ever listed; and the lock bytes
  0x01, 0x00 list page 3 and nothing else.
\<close>

theorem static_lock_decode:
  "(\<forall>i < 16. 3 + i \<in> set (staticLockedPages lock0 lock1) \<longleftrightarrow>
       bit (ucast lock0 OR push_bit 8 (ucast lock1) :: 16 word) i) \<and>
   set (staticLockedPages lock0 lock1) \<subseteq> {3..18} \<and>
   staticLockedPages 0x01 0x00 = [3]"
proof (intro conjI allI impI)
  fix i :: nat
  assume "i < 16"
  then show "3 + i \<in> set (staticLockedPages lock0 lock1) \<longleftrightarrow>
       bit (ucast lock0 OR push_bit 8 (ucast lock1) :: 16 word) i"
    by (auto simp: staticLockedPages_eq field_bit)
next
  show "set (staticLockedPages lock0 lock1) \<subseteq> {3..18}"
    by (auto simp: staticLockedPages_eq)
next
  show "staticLockedPages 0x01 0x00 = [3]"
    by code_simp
qed

theorem static_lock_decode_witness:
  "(5 :: nat) < 16 \<and> 3 + 5 \<in> set (staticLockedPages 0x20 0x00) \<and>
   bit (ucast (0x20 :: byte) OR push_bit 8 (ucast (0x00 :: byte)) :: 16 word) 5 \<and>
   3 + 12 \<in> set (staticLockedPages 0x00 0x10) \<and>
   bit (ucast (0x00 :: byte) OR push_bit 8 (ucast (0x10 :: byte)) :: 16 word) 12"
proof -
  have a: "bit (ucast (0x20 :: byte) OR push_bit 8 (ucast (0x00 :: byte)) :: 16 word) 5"
    by (simp add: bit_simps)
  have b: "bit (ucast (0x00 :: byte) OR push_bit 8 (ucast (0x10 :: byte)) :: 16 word) 12"
    by (simp add: bit_simps)
  show ?thesis
    using static_lock_decode [of "0x20" "0x00", THEN conjunct1, rule_format, of 5]
      static_lock_decode [of "0x00" "0x10", THEN conjunct1, rule_format, of 12] a b
    by simp
qed

section \<open>Properties of the record encoder\<close>

lemma uriPayload_nonempty: "0 < length (uriPayload uri)"
  by (simp add: uriPayload_def)

lemma unat_payloadLen:
  "n \<le> 255 \<Longrightarrow> unat (of_nat n :: byte) = n"
  by (simp add: unat_of_nat)

lemma buildURIRecord_eq:
  "buildURIRecord uri = [0xD1, 0x01, of_nat (length (uriPayload uri)), 0x55] @ uriPayload uri"
  by (simp add: buildURIRecord_def Let_def)

lemma parse_built_record:
  assumes "length (uriPayload uri) \<le> 255"
  shows "parseNDEFMessage (buildURIRecord uri) =
     [MessageAnalysis, RecordNumber 1,
      RecordHeader 0xD1 \<lparr>mb = True, me = True, cf = False, sr = True, il = False, tnf = 1\<rparr>,
      TypeLength 1, PayloadLength (of_nat (length (uriPayload uri))), RecordType (bytesOf ''U''),
      Payload (uriPayload uri), URIRecord (parseURIPayload (uriPayload uri)), EndOfMessage]"
proof -
  let ?n = "length (uriPayload uri)"
  let ?data = "[0xD1, 0x01, of_nat ?n, 0x55] @ uriPayload uri"
  have n: "0 < ?n" by (rule uriPayload_nonempty)
  have u: "unat (of_nat ?n :: byte) = ?n"
    using assms by (rule unat_payloadLen)
  have uc: "(ucast (of_nat ?n :: byte) :: 32 word) = of_nat ?n"
    using assms by (simp add: unsigned_of_nat take_bit_nat_eq_self)
  have u32: "unat (of_nat ?n :: 32 word) = ?n"
    using assms by (simp add: unat_of_nat)
  have pos: "(0 :: 32 word) < of_nat ?n"
    using n u32 by (simp add: word_less_nat_alt)
  have "parseRecord ?data 0 1 =
     ([RecordNumber 1,
      RecordHeader 0xD1 \<lparr>mb = True, me = True, cf = False, sr = True, il = False, tnf = 1\<rparr>,
      TypeLength 1, PayloadLength (of_nat ?n), RecordType (bytesOf ''U''),
      Payload (uriPayload uri), URIRecord (parseURIPayload (uriPayload uri)), EndOfMessage], None)"
    using n pos by (simp add: parseRecord_def Let_def slice_def uc u32 bytesOf_def)
  then show ?thesis
    by (simp add: parseNDEFMessage_def buildURIRecord_eq parseRecords.simps [of _ 0])
qed

text \<open>
  C2 (as the code has it): \<^verbatim>\<open>buildURIRecord\<close> has no error result; it returns a buffer for
  every URI. When the payload, the prefix code and the URI without its scheme, has at
  most 255 bytes, the buffer is a short record: the header 0xD1 has the SR bit set, the
  payload-length byte equals the length of the payload, and \<^verbatim>\<open>parseNDEFMessage\<close> reads
  back one short record with that payload.
\<close>

theorem short_record_built:
  assumes "length (uriPayload uri) \<le> 255"
  shows "buildURIRecord uri = [0xD1, 0x01, of_nat (length (uriPayload uri)), 0x55] @ uriPayload uri \<and>
         (buildURIRecord uri ! 0) AND 0x10 \<noteq> 0 \<and>
         unat (buildURIRecord uri ! 2) = length (uriPayload uri) \<and>
         parseNDEFMessage (buildURIRecord uri) =
           [MessageAnalysis, RecordNumber 1,
            RecordHeader 0xD1 \<lparr>mb = True, me = True, cf = False, sr = True, il = False, tnf = 1\<rparr>,
            TypeLength 1, PayloadLength (of_nat (length (uriPayload uri))), RecordType (bytesOf ''U''),
            Payload (uriPayload uri), URIRecord (parseURIPayload (uriPayload uri)), EndOfMessage]"
  using assms parse_built_record [OF assms] by (simp add: buildURIRecord_eq unat_payloadLen)

theorem short_record_built_witness:
  "length (uriPayload ''https://example.com'') \<le> 255 \<and>
   buildURIRecord ''https://example.com'' = [0xD1, 0x01, 0x0C, 0x55, 0x04] @ bytesOf ''example.com''"
proof -
  have len: "length (uriPayload ''https://example.com'') = 12"
    by code_simp
  have pl: "uriPayload ''https://example.com'' = 0x04 # bytesOf ''example.com''"
    by code_simp
  have le: "length (uriPayload ''https://example.com'') \<le> 255"
    by (simp add: len)
  from short_record_built [OF le]
  have "buildURIRecord ''https://example.com'' =
      [0xD1, 0x01, of_nat (length (uriPayload ''https://example.com'')), 0x55] @
      uriPayload ''https://example.com''"
    by (rule conjunct1)
  then have "buildURIRecord ''https://example.com'' = [0xD1, 0x01, 0x0C, 0x55, 0x04] @ bytesOf ''example.com''"
    by (simp only: len) (simp add: pl)
  with le show ?thesis
    by (rule conjI)
qed

text \<open>
  C2 as stated fails for a URI of 255 letters: the payload has 256 bytes, and the
  encoder still returns a buffer, of 260 bytes, whose payload-length byte is 0.
\<close>

theorem oversize_payload_counterexample:
  "length (uriPayload (replicate 255 (CHR ''a''))) = 256 \<and>
   length (buildURIRecord (replicate 255 (CHR ''a''))) = 260 \<and>
   buildURIRecord (replicate 255 (CHR ''a'')) ! 2 = 0x00"
  by code_simp

section \<open>Properties of the functions that talk to the card\<close>

text \<open>Every call of \<^verbatim>\<open>transmit\<close> sends exactly one APDU, whether it succeeds or not.\<close>

lemma transmit_sent:
  "transmit T crd apdu = (r, crd') \<Longrightarrow> sent crd' = sent crd @ [apdu]"
  by (auto simp: transmit_def cardTransmit_def Let_def split: prod.splits sum.splits if_splits)

lemma readPage_sent:
  "readPage T crd page = (r, crd') \<Longrightarrow> sent crd' = sent crd @ [[0xFF, 0xB0, 0x00, page, 0x04]]"
  unfolding readPage_def by (rule transmit_sent)

lemma writePage_sent:
  "writePage T crd page data = (r, crd') \<Longrightarrow> length data = 4 \<Longrightarrow>
   sent crd' = sent crd @ [[0xFF, 0xD6, 0x00, page, 0x04] @ data]"
  by (auto simp: writePage_def Let_def split: prod.splits sum.splits dest: transmit_sent)

text \<open>
  C7: the tag type follows from at most three reads. If the read of page 0 fails the
  result is \<open>unknown\<close>. If it succeeds and the first byte of the page is not 0x04 the
  result is \<open>Type2-compatible\<close>. If the byte is 0x04: \<open>NTAG213\<close> when the read of page 0x2C
  fails, \<open>NTAG215\<close> when that read succeeds and the read of page 0x86 fails, \<open>NTAG216\<close> when
  both succeed. In each case the APDUs sent are the reads of pages 0, 0x2C and 0x86 up to
  the one that decides, and nothing else. (A read of page 0 that succeeds with no data
  bytes has no first byte; the code then answers \<open>unknown\<close>.)
\<close>

theorem identifyTagType_classifies:
  "(readPage T crd 0x00 = (Inl e0, c0) \<longrightarrow>
      identifyTagType T crd = (''unknown'', c0) \<and>
      sent c0 = sent crd @ [[0xFF, 0xB0, 0x00, 0x00, 0x04]]) \<and>
   (readPage T crd 0x00 = (Inr page0, c0) \<and> page0 \<noteq> [] \<and> page0 ! 0 \<noteq> 0x04 \<longrightarrow>
      identifyTagType T crd = (''Type2-compatible'', c0) \<and>
      sent c0 = sent crd @ [[0xFF, 0xB0, 0x00, 0x00, 0x04]]) \<and>
   (readPage T crd 0x00 = (Inr page0, c0) \<and> page0 \<noteq> [] \<and> page0 ! 0 = 0x04 \<and>
    readPage T c0 0x2C = (Inl e1, c1) \<longrightarrow>
      identifyTagType T crd = (''NTAG213'', c1) \<and>
      sent c1 = sent crd @ [[0xFF, 0xB0, 0x00, 0x00, 0x04], [0xFF, 0xB0, 0x00, 0x2C, 0x04]]) \<and>
   (readPage T crd 0x00 = (Inr page0, c0) \<and> page0 \<noteq> [] \<and> page0 ! 0 = 0x04 \<and>
    readPage T c0 0x2C = (Inr page1, c1) \<and> readPage T c1 0x86 = (Inl e2, c2) \<longrightarrow>
      identifyTagType T crd = (''NTAG215'', c2) \<and>
      sent c2 = sent crd @ [[0xFF, 0xB0, 0x00, 0x00, 0x04], [0xFF, 0xB0, 0x00, 0x2C, 0x04],
                           [0xFF, 0xB0, 0x00, 0x86, 0x04]]) \<and>
   (readPage T crd 0x00 = (Inr page0, c0) \<and> page0 \<noteq> [] \<and> page0 ! 0 = 0x04 \<and>
    readPage T c0 0x2C = (Inr page1, c1) \<and> readPage T c1 0x86 = (Inr page2, c2) \<longrightarrow>
      identifyTagType T crd = (''NTAG216'', c2) \<and>
      sent c2 = sent crd @ [[0xFF, 0xB0, 0x00, 0x00, 0x04], [0xFF, 0xB0, 0x00, 0x2C, 0x04],
                           [0xFF, 0xB0, 0x00, 0x86, 0x04]])"
proof (intro conjI impI; (elim conjE)?)
  assume "readPage T crd 0x00 = (Inl e0, c0)"
  then show "identifyTagType T crd = (''unknown'', c0)"
    by (simp add: identifyTagType_def)
next
  assume "readPage T crd 0x00 = (Inl e0, c0)"
  then show "sent c0 = sent crd @ [[0xFF, 0xB0, 0x00, 0x00, 0x04]]"
    by (rule readPage_sent)
next
  assume "readPage T crd 0x00 = (Inr page0, c0)" "page0 \<noteq> []" "page0 ! 0 \<noteq> 0x04"
  then show "identifyTagType T crd = (''Type2-compatible'', c0)"
    by (simp add: identifyTagType_def Suc_le_eq)
next
  assume "readPage T crd 0x00 = (Inr page0, c0)"
  then show "sent c0 = sent crd @ [[0xFF, 0xB0, 0x00, 0x00, 0x04]]"
    by (rule readPage_sent)
next
  assume "readPage T crd 0x00 = (Inr page0, c0)" "page0 \<noteq> []" "page0 ! 0 = 0x04"
    "readPage T c0 0x2C = (Inl e1, c1)"
  then show "identifyTagType T crd = (''NTAG213'', c1)"
    by (simp add: identifyTagType_def Suc_le_eq)
next
  assume "readPage T crd 0x00 = (Inr page0, c0)" "readPage T c0 0x2C = (Inl e1, c1)"
  then show "sent c1 = sent crd @ [[0xFF, 0xB0, 0x00, 0x00, 0x04], [0xFF, 0xB0, 0x00, 0x2C, 0x04]]"
    by (simp add: readPage_sent)
next
  assume "readPage T crd 0x00 = (Inr page0, c0)" "page0 \<noteq> []" "page0 ! 0 = 0x04"
    "readPage T c0 0x2C = (Inr page1, c1)" "readPage T c1 0x86 = (Inl e2, c2)"
  then show "identifyTagType T crd = (''NTAG215'', c2)"
    by (simp add: identifyTagType_def Suc_le_eq)
next
  assume "readPage T crd 0x00 = (Inr page0, c0)" "readPage T c0 0x2C = (Inr page1, c1)"
    "readPage T c1 0x86 = (Inl e2, c2)"
  then show "sent c2 = sent crd @ [[0xFF, 0xB0, 0x00, 0x00, 0x04], [0xFF, 0xB0, 0x00, 0x2C, 0x04],
                           [0xFF, 0xB0, 0x00, 0x86, 0x04]]"
    by (simp add: readPage_sent)
next
  assume "readPage T crd 0x00 = (Inr page0, c0)" "page0 \<noteq> []" "page0 ! 0 = 0x04"
    "readPage T c0 0x2C = (Inr page1, c1)" "readPage T c1 0x86 = (Inr page2, c2)"
  then show "identifyTagType T crd = (''NTAG216'', c2)"
    by (simp add: identifyTagType_def Suc_le_eq)
next
  assume "readPage T crd 0x00 = (Inr page0, c0)" "readPage T c0 0x2C = (Inr page1, c1)"
    "readPage T c1 0x86 = (Inr page2, c2)"
  then show "sent c2 = sent crd @ [[0xFF, 0xB0, 0x00, 0x00, 0x04], [0xFF, 0xB0, 0x00, 0x2C, 0x04],
                           [0xFF, 0xB0, 0x00, 0x86, 0x04]]"
    by (simp add: readPage_sent)
qed


theorem identifyTagType_classifies_witness:
  "identifyTagType
     (\<lambda>d apdu. (if d < (2 :: nat) then Inr [0x04, 0x11, 0x22, 0x33, 0x90, 0x00]
                 else Inl (CardError ''read failed''), d + 1))
     \<lparr>device = 0, sent = []\<rparr> =
   (''NTAG215'',
    \<lparr>device = 3,
     sent = [[0xFF, 0xB0, 0x00, 0x00, 0x04], [0xFF, 0xB0, 0x00, 0x2C, 0x04],
             [0xFF, 0xB0, 0x00, 0x86, 0x04]]\<rparr>)"
proof -
  let ?T = "\<lambda>d apdu. (if d < (2 :: nat) then Inr [0x04, 0x11, 0x22, 0x33, 0x90, 0x00]
                 else Inl (CardError ''read failed''), d + 1)"
  let ?a0 = "[0xFF, 0xB0, 0x00, 0x00, 0x04] :: byte list"
  let ?a1 = "[0xFF, 0xB0, 0x00, 0x2C, 0x04] :: byte list"
  let ?a2 = "[0xFF, 0xB0, 0x00, 0x86, 0x04] :: byte list"
  have r0: "readPage ?T \<lparr>device = 0, sent = []\<rparr> 0x00 =
      (Inr [0x04, 0x11, 0x22, 0x33], \<lparr>device = 1, sent = [?a0]\<rparr>)"
    by (simp add: readPage_def transmit_def cardTransmit_def)
  have r1: "readPage ?T \<lparr>device = 1, sent = [?a0]\<rparr> 0x2C =
      (Inr [0x04, 0x11, 0x22, 0x33], \<lparr>device = 2, sent = [?a0, ?a1]\<rparr>)"
    by (simp add: readPage_def transmit_def cardTransmit_def)
  have r2: "readPage ?T \<lparr>device = 2, sent = [?a0, ?a1]\<rparr> 0x86 =
      (Inl (CardError ''read failed''), \<lparr>device = 3, sent = [?a0, ?a1, ?a2]\<rparr>)"
    by (simp add: readPage_def transmit_def cardTransmit_def)
  show ?thesis
    using identifyTagType_classifies [where T = ?T and crd = "\<lparr>device = 0, sent = []\<rparr>"
        and ?page0.0 = "[0x04, 0x11, 0x22, 0x33]" and ?c0.0 = "\<lparr>device = 1, sent = [?a0]\<rparr>"
        and ?page1.0 = "[0x04, 0x11, 0x22, 0x33]" and ?c1.0 = "\<lparr>device = 2, sent = [?a0, ?a1]\<rparr>"
        and ?e2.0 = "CardError ''read failed''" and ?c2.0 = "\<lparr>device = 3, sent = [?a0, ?a1, ?a2]\<rparr>",
        THEN conjunct2, THEN conjunct2, THEN conjunct2, THEN conjunct1]
      r0 r1 r2
    by simp
qed

text \<open>
  C9: \<^verbatim>\<open>formatType2Tag\<close> writes page 2 with zeros, then page 3 with \<open>E1 10 3F 00\<close>, then
  page 4 with \<open>00 00 00 FE\<close>, in this order. When a write fails, the function returns
  its error with the card as that write left it: the APDUs sent are the writes up to
  and including the failed one, so no later write is issued and no earlier one is
  undone. When all three succeed, exactly these three APDUs have been sent.
\<close>

theorem formatType2Tag_writes:
  "(writePage T crd 0x02 [0x00, 0x00, 0x00, 0x00] = (Some e1, c1) \<longrightarrow>
      formatType2Tag T crd = (Some (Wrapped ''write lock bytes'' e1), c1) \<and>
      sent c1 = sent crd @ [[0xFF, 0xD6, 0x00, 0x02, 0x04, 0x00, 0x00, 0x00, 0x00]]) \<and>
   (writePage T crd 0x02 [0x00, 0x00, 0x00, 0x00] = (None, c1) \<and>
    writePage T c1 0x03 [0xE1, 0x10, 0x3F, 0x00] = (Some e2, c2) \<longrightarrow>
      formatType2Tag T crd = (Some (Wrapped ''write capability container'' e2), c2) \<and>
      sent c2 = sent crd @ [[0xFF, 0xD6, 0x00, 0x02, 0x04, 0x00, 0x00, 0x00, 0x00],
                           [0xFF, 0xD6, 0x00, 0x03, 0x04, 0xE1, 0x10, 0x3F, 0x00]]) \<and>
   (writePage T crd 0x02 [0x00, 0x00, 0x00, 0x00] = (None, c1) \<and>
    writePage T c1 0x03 [0xE1, 0x10, 0x3F, 0x00] = (None, c2) \<and>
    writePage T c2 0x04 [0x00, 0x00, 0x00, 0xFE] = (Some e3, c3) \<longrightarrow>
      formatType2Tag T crd = (Some (Wrapped ''write initial NDEF area'' e3), c3) \<and>
      sent c3 = sent crd @ [[0xFF, 0xD6, 0x00, 0x02, 0x04, 0x00, 0x00, 0x00, 0x00],
                           [0xFF, 0xD6, 0x00, 0x03, 0x04, 0xE1, 0x10, 0x3F, 0x00],
                           [0xFF, 0xD6, 0x00, 0x04, 0x04, 0x00, 0x00, 0x00, 0xFE]]) \<and>
   (writePage T crd 0x02 [0x00, 0x00, 0x00, 0x00] = (None, c1) \<and>
    writePage T c1 0x03 [0xE1, 0x10, 0x3F, 0x00] = (None, c2) \<and>
    writePage T c2 0x04 [0x00, 0x00, 0x00, 0xFE] = (None, c3) \<longrightarrow>
      formatType2Tag T crd = (None, c3) \<and>
      sent c3 = sent crd @ [[0xFF, 0xD6, 0x00, 0x02, 0x04, 0x00, 0x00, 0x00, 0x00],
                           [0xFF, 0xD6, 0x00, 0x03, 0x04, 0xE1, 0x10, 0x3F, 0x00],
                           [0xFF, 0xD6, 0x00, 0x04, 0x04, 0x00, 0x00, 0x00, 0xFE]])"
proof -
  have w2: "sent c = sent crd @ [[0xFF, 0xD6, 0x00, 0x02, 0x04, 0x00, 0x00, 0x00, 0x00]]"
    if "writePage T crd 0x02 [0x00, 0x00, 0x00, 0x00] = (r, c)" for r c
    using writePage_sent [OF that] by simp
  have w3: "sent c' = sent c @ [[0xFF, 0xD6, 0x00, 0x03, 0x04, 0xE1, 0x10, 0x3F, 0x00]]"
    if "writePage T c 0x03 [0xE1, 0x10, 0x3F, 0x00] = (r, c')" for r c c'
    using writePage_sent [OF that] by simp
  have w4: "sent c' = sent c @ [[0xFF, 0xD6, 0x00, 0x04, 0x04, 0x00, 0x00, 0x00, 0xFE]]"
    if "writePage T c 0x04 [0x00, 0x00, 0x00, 0xFE] = (r, c')" for r c c'
    using writePage_sent [OF that] by simp
  have "formatType2Tag T crd = (Some (Wrapped ''write lock bytes'' e1), c1) \<and>
      sent c1 = sent crd @ [[0xFF, 0xD6, 0x00, 0x02, 0x04, 0x00, 0x00, 0x00, 0x00]]"
    if "writePage T crd 0x02 [0x00, 0x00, 0x00, 0x00] = (Some e1, c1)"
    using that w2 [OF that] by (simp add: formatType2Tag_def)
  moreover
  have "formatType2Tag T crd = (Some (Wrapped ''write capability container'' e2), c2) \<and>
      sent c2 = sent crd @ [[0xFF, 0xD6, 0x00, 0x02, 0x04, 0x00, 0x00, 0x00, 0x00],
                           [0xFF, 0xD6, 0x00, 0x03, 0x04, 0xE1, 0x10, 0x3F, 0x00]]"
    if a: "writePage T crd 0x02 [0x00, 0x00, 0x00, 0x00] = (None, c1)"
      and b: "writePage T c1 0x03 [0xE1, 0x10, 0x3F, 0x00] = (Some e2, c2)"
    using a b w2 [OF a] w3 [OF b] by (simp add: formatType2Tag_def)
  moreover
  have "formatType2Tag T crd = (Some (Wrapped ''write initial NDEF area'' e3), c3) \<and>
      sent c3 = sent crd @ [[0xFF, 0xD6, 0x00, 0x02, 0x04, 0x00, 0x00, 0x00, 0x00],
                           [0xFF, 0xD6, 0x00, 0x03, 0x04, 0xE1, 0x10, 0x3F, 0x00],
                           [0xFF, 0xD6, 0x00, 0x04, 0x04, 0x00, 0x00, 0x00, 0xFE]]"
    if a: "writePage T crd 0x02 [0x00, 0x00, 0x00, 0x00] = (None, c1)"
      and b: "writePage T c1 0x03 [0xE1, 0x10, 0x3F, 0x00] = (None, c2)"
      and c: "writePage T c2 0x04 [0x00, 0x00, 0x00, 0xFE] = (Some e3, c3)"
    using a b c w2 [OF a] w3 [OF b] w4 [OF c] by (simp add: formatType2Tag_def)
  moreover
  have "formatType2Tag T crd = (None, c3) \<and>
      sent c3 = sent crd @ [[0xFF, 0xD6, 0x00, 0x02, 0x04, 0x00, 0x00, 0x00, 0x00],
                           [0xFF, 0xD6, 0x00, 0x03, 0x04, 0xE1, 0x10, 0x3F, 0x00],
                           [0xFF, 0xD6, 0x00, 0x04, 0x04, 0x00, 0x00, 0x00, 0xFE]]"
    if a: "writePage T crd 0x02 [0x00, 0x00, 0x00, 0x00] = (None, c1)"
      and b: "writePage T c1 0x03 [0xE1, 0x10, 0x3F, 0x00] = (None, c2)"
      and c: "writePage T c2 0x04 [0x00, 0x00, 0x00, 0xFE] = (None, c3)"
    using a b c w2 [OF a] w3 [OF b] w4 [OF c] by (simp add: formatType2Tag_def)
  ultimately show ?thesis
    by blast
qed

theorem formatType2Tag_writes_witness:
  "formatType2Tag
     (\<lambda>d apdu. (if d < (1 :: nat) then Inr [0x90, 0x00] else Inr [0x63, 0x00], d + 1))
     \<lparr>device = 0, sent = []\<rparr> =
   (Some (Wrapped ''write capability container'' (APDUFailed 0x63 0x00)),
    \<lparr>device = 2,
     sent = [[0xFF, 0xD6, 0x00, 0x02, 0x04, 0x00, 0x00, 0x00, 0x00],
             [0xFF, 0xD6, 0x00, 0x03, 0x04, 0xE1, 0x10, 0x3F, 0x00]]\<rparr>)"
proof -
  let ?T = "\<lambda>d apdu. (if d < (1 :: nat) then Inr [0x90, 0x00] else Inr [0x63, 0x00], d + 1)"
  let ?w2 = "[0xFF, 0xD6, 0x00, 0x02, 0x04, 0x00, 0x00, 0x00, 0x00] :: byte list"
  let ?w3 = "[0xFF, 0xD6, 0x00, 0x03, 0x04, 0xE1, 0x10, 0x3F, 0x00] :: byte list"
  have a: "writePage ?T \<lparr>device = 0, sent = []\<rparr> 0x02 [0x00, 0x00, 0x00, 0x00] =
      (None, \<lparr>device = 1, sent = [?w2]\<rparr>)"
    by (simp add: writePage_def transmit_def cardTransmit_def)
  have b: "writePage ?T \<lparr>device = 1, sent = [?w2]\<rparr> 0x03 [0xE1, 0x10, 0x3F, 0x00] =
      (Some (APDUFailed 0x63 0x00), \<lparr>device = 2, sent = [?w2, ?w3]\<rparr>)"
    by (simp add: writePage_def transmit_def cardTransmit_def)
  show ?thesis
    using formatType2Tag_writes [where T = ?T and crd = "\<lparr>device = 0, sent = []\<rparr>"
        and ?c1.0 = "\<lparr>device = 1, sent = [?w2]\<rparr>" and ?e2.0 = "APDUFailed 0x63 0x00"
        and ?c2.0 = "\<lparr>device = 2, sent = [?w2, ?w3]\<rparr>",
        THEN conjunct2, THEN conjunct1]
      a b
    by simp
qed

section \<open>Properties of the TLV writer\<close>

lemma tlvBuffer_eq:
  "tlvBuffer ndef =
     [0x03, of_nat (length ndef)] @ ndef @ [0xFE] @
     replicate ((4 - (length ndef + 3) mod 4) mod 4) 0x00"
proof -
  have "length ([0x03, of_nat (length ndef)] @ ndef @ [0xFE :: byte]) = length ndef + 3"
    by simp
  then show ?thesis
    unfolding tlvBuffer_def Let_def by (simp only:) simp
qed

lemma length_tlvBuffer:
  "length (tlvBuffer ndef) = length ndef + 3 + (4 - (length ndef + 3) mod 4) mod 4"
  unfolding tlvBuffer_eq by simp


lemma pad_aligned: "4 dvd m + (4 - m mod 4) mod 4" for m :: nat
proof -
  have "m mod 4 = 0 \<or> m mod 4 = 1 \<or> m mod 4 = 2 \<or> m mod 4 = 3"
    by linarith
  then show ?thesis
    by (elim disjE) (simp_all, presburger+)
qed

lemma pad_less: "(4 - m mod 4) mod 4 < 4" for m :: nat
  by simp

lemma tlvBuffer_aligned: "4 dvd length (tlvBuffer ndef)"
  unfolding length_tlvBuffer by (rule pad_aligned)

lemma tlvBuffer_bound: "length (tlvBuffer ndef) < length ndef + 3 + 4"
  unfolding length_tlvBuffer using pad_less [of "length ndef + 3"] by linarith


lemma aligned_step: "4 dvd n \<Longrightarrow> 4 dvd i \<Longrightarrow> i < n \<Longrightarrow> i + 4 \<le> n" for i n :: nat
  by presburger

lemma writePages_done:
  "length tlv \<le> i \<Longrightarrow> writePages T crd tlv i page = (None, crd)"
  by (subst writePages.simps) simp

lemma writePages_step:
  "i < length tlv \<Longrightarrow> writePage T crd page (slice tlv i (i + 4)) = (None, c1) \<Longrightarrow>
   writePages T crd tlv i page = writePages T c1 tlv (i + 4) (page + 1)"
  by (subst writePages.simps) simp

lemma writePages_fail:
  "i < length tlv \<Longrightarrow> writePage T crd page (slice tlv i (i + 4)) = (Some err, c1) \<Longrightarrow>
   writePages T crd tlv i page = (Some (WritePageFailed page err), c1)"
  by (subst writePages.simps) simp


lemma writePages_sent:
  "writePages T crd tlv i page = (None, crd') \<Longrightarrow> 4 dvd length tlv \<Longrightarrow> 4 dvd i \<Longrightarrow>
   sent crd' = sent crd @
     map (\<lambda>k. [0xFF, 0xD6, 0x00, page + of_nat k, 0x04] @ slice tlv (i + 4 * k) (i + 4 * k + 4))
       [0..<(length tlv - i) div 4]"
proof (induction T crd tlv i page rule: writePages.induct)
  case (1 T crd tlv i page)
  show ?case
  proof (cases "i < length tlv")
    case False
    then have "writePages T crd tlv i page = (None, crd)"
      by (simp add: writePages_done)
    with "1.prems"(1) False show ?thesis
      by simp
  next
    case True
    have le: "i + 4 \<le> length tlv"
      using "1.prems"(2,3) True by (rule aligned_step)
    then have len4: "length (slice tlv i (i + 4)) = 4"
      by (simp add: slice_def)
    obtain r c1 where w: "writePage T crd page (slice tlv i (i + 4)) = (r, c1)"
      by (cases "writePage T crd page (slice tlv i (i + 4))")
    have r: "r = None"
    proof (cases r)
      case None
      then show ?thesis .
    next
      case (Some err)
      with w True "1.prems"(1) show ?thesis
        by (simp add: writePages_fail)
    qed
    have rest: "writePages T c1 tlv (i + 4) (page + 1) = (None, crd')"
      using writePages_step [OF True w [unfolded r]] "1.prems"(1) by simp
    have s1: "sent c1 = sent crd @ [[0xFF, 0xD6, 0x00, page, 0x04] @ slice tlv i (i + 4)]"
      using writePage_sent [OF w len4] .
    have "4 dvd i + 4"
      using "1.prems"(3) by simp
    from "1.IH" [OF True w [unfolded r, symmetric] refl rest "1.prems"(2) this]
    have ih: "sent crd' = sent c1 @
        map (\<lambda>k. [0xFF, 0xD6, 0x00, page + 1 + of_nat k, 0x04] @
                  slice tlv (i + 4 + 4 * k) (i + 4 + 4 * k + 4))
          [0..<(length tlv - (i + 4)) div 4]" .
    have "length tlv - i = (length tlv - (i + 4)) + 4"
      using le by simp
    then have n: "(length tlv - i) div 4 = Suc ((length tlv - (i + 4)) div 4)"
      by (simp only: div_add_self2)
    have shift: "map f [0..<Suc m] = f 0 # map (\<lambda>k. f (Suc k)) [0..<m]" for f :: "nat \<Rightarrow> byte list" and m
      by (simp only: map_upt_Suc)
    show ?thesis
      unfolding n ih s1 shift
      by (simp add: ac_simps)
  qed
qed


lemma writePages_sent_fail:
  "writePages T crd tlv i page = (Some err, crd') \<Longrightarrow> 4 dvd length tlv \<Longrightarrow> 4 dvd i \<Longrightarrow>
   \<exists>n e. n < (length tlv - i) div 4 \<and> err = WritePageFailed (page + of_nat n) e \<and>
     sent crd' = sent crd @
       map (\<lambda>k. [0xFF, 0xD6, 0x00, page + of_nat k, 0x04] @ slice tlv (i + 4 * k) (i + 4 * k + 4))
         [0..<Suc n]"
proof (induction T crd tlv i page rule: writePages.induct)
  case (1 T crd tlv i page)
  show ?case
  proof (cases "i < length tlv")
    case False
    then have "writePages T crd tlv i page = (None, crd)"
      by (simp add: writePages_done)
    with "1.prems"(1) show ?thesis
      by simp
  next
    case True
    have le: "i + 4 \<le> length tlv"
      using "1.prems"(2,3) True by (rule aligned_step)
    then have len4: "length (slice tlv i (i + 4)) = 4"
      by (simp add: slice_def)
    have "length tlv - i = (length tlv - (i + 4)) + 4"
      using le by simp
    then have n: "(length tlv - i) div 4 = Suc ((length tlv - (i + 4)) div 4)"
      by (simp only: div_add_self2)
    obtain r c1 where w: "writePage T crd page (slice tlv i (i + 4)) = (r, c1)"
      by (cases "writePage T crd page (slice tlv i (i + 4))")
    have s1: "sent c1 = sent crd @ [[0xFF, 0xD6, 0x00, page, 0x04] @ slice tlv i (i + 4)]"
      using writePage_sent [OF w len4] .
    show ?thesis
    proof (cases r)
      case (Some e)
      with w True "1.prems"(1) have "err = WritePageFailed page e" and "crd' = c1"
        by (simp_all add: writePages_fail)
      with s1 n show ?thesis
        by (intro exI [of _ 0] exI [of _ e]) simp
    next
      case None
      have rest: "writePages T c1 tlv (i + 4) (page + 1) = (Some err, crd')"
        using writePages_step [OF True w [unfolded None]] "1.prems"(1) by simp
      have "4 dvd i + 4"
        using "1.prems"(3) by simp
      from "1.IH" [OF True w [unfolded None, symmetric] refl rest "1.prems"(2) this]
      obtain m e where m: "m < (length tlv - (i + 4)) div 4"
        and e: "err = WritePageFailed (page + 1 + of_nat m) e"
        and ih: "sent crd' = sent c1 @
          map (\<lambda>k. [0xFF, 0xD6, 0x00, page + 1 + of_nat k, 0x04] @
                    slice tlv (i + 4 + 4 * k) (i + 4 + 4 * k + 4))
            [0..<Suc m]"
        by blast
      have shift: "map f [0..<Suc k] = f 0 # map (\<lambda>k. f (Suc k)) [0..<k]"
        for f :: "nat \<Rightarrow> byte list" and k
        by (simp only: map_upt_Suc)
      have "sent crd' = sent crd @
          map (\<lambda>k. [0xFF, 0xD6, 0x00, page + of_nat k, 0x04] @ slice tlv (i + 4 * k) (i + 4 * k + 4))
            [0..<Suc (Suc m)]"
        unfolding ih s1 shift [of _ "Suc m"]
        by (simp add: ac_simps)
      moreover have "err = WritePageFailed (page + of_nat (Suc m)) e"
        using e by (simp add: ac_simps)
      moreover have "Suc m < (length tlv - i) div 4"
        using m n by simp
      ultimately show ?thesis
        by blast
    qed
  qed
qed

lemma transmit_accepted:
  assumes "\<forall>d apdu. \<exists>resp d'. T d apdu = (Inr (resp @ [0x90, 0x00]), d')"
  shows "\<exists>resp crd'. transmit T crd apdu = (Inr resp, crd')"
proof -
  from assms obtain resp d' where "T (device crd) apdu = (Inr (resp @ [0x90, 0x00]), d')"
    by blast
  then show ?thesis
    by (simp add: transmit_def cardTransmit_def nth_append)
qed

lemma writePage_accepted:
  assumes "\<forall>d apdu. \<exists>resp d'. T d apdu = (Inr (resp @ [0x90, 0x00]), d')"
    and "length data = 4"
  shows "\<exists>crd'. writePage T crd page data = (None, crd')"
proof -
  from transmit_accepted [OF assms(1)]
  obtain resp crd' where "transmit T crd ([0xFF, 0xD6, 0x00, page, 0x04] @ data) = (Inr resp, crd')"
    by blast
  with assms(2) show ?thesis
    by (simp add: writePage_def)
qed

lemma writePages_accepted:
  "\<forall>d apdu. \<exists>resp d'. T d apdu = (Inr (resp @ [0x90, 0x00]), d') \<Longrightarrow>
   4 dvd length tlv \<Longrightarrow> 4 dvd i \<Longrightarrow> \<exists>crd'. writePages T crd tlv i page = (None, crd')"
proof (induction T crd tlv i page rule: writePages.induct)
  case (1 T crd tlv i page)
  show ?case
  proof (cases "i < length tlv")
    case False
    then show ?thesis
      by (simp add: writePages_done)
  next
    case True
    have le: "i + 4 \<le> length tlv"
      using "1.prems"(2,3) True by (rule aligned_step)
    then have len4: "length (slice tlv i (i + 4)) = 4"
      by (simp add: slice_def)
    from writePage_accepted [OF "1.prems"(1) len4]
    obtain c1 where w: "writePage T crd page (slice tlv i (i + 4)) = (None, c1)"
      by blast
    have "4 dvd i + 4"
      using "1.prems"(3) by simp
    from "1.IH" [OF True w [symmetric] refl "1.prems"(1,2) this]
    show ?thesis
      by (simp only: writePages_step [OF True w])
  qed
qed


text \<open>
  C5: \<^verbatim>\<open>writeNDEFToType2\<close> refuses a message of more than 254 bytes with the error ``NDEF
  too large for single-byte TLV length'', before anything is sent to the card. A
  message of at most 254 bytes passes this check, and the function then writes the
  buffer it builds: 0x03, the length in one byte, the message, 0xFE, and zero bytes
  up to the next multiple of four (the length of the buffer is a multiple of four and
  exceeds the unpadded length by less than four). The buffer goes to the card in
  consecutive four-byte pieces from page 4 on. When the function returns without error,
  the APDUs sent are the writes of all the pieces. When it returns an error, the error
  is that of a page write, and the APDUs sent are the writes of the pieces up to and
  including the one that failed. When the card accepts every command, the function
  returns without error.
\<close>

theorem tlv_encoding:
  "(254 < length ndef \<longrightarrow>
      writeNDEFToType2 T crd ndef = (Some (NDEFTooLarge (length ndef)), crd)) \<and>
   (length ndef \<le> 254 \<longrightarrow>
      tlvBuffer ndef =
        [0x03, of_nat (length ndef)] @ ndef @ [0xFE] @
        replicate ((4 - (length ndef + 3) mod 4) mod 4) 0x00 \<and>
      unat (of_nat (length ndef) :: byte) = length ndef \<and>
      4 dvd length (tlvBuffer ndef) \<and>
      length (tlvBuffer ndef) < length ndef + 3 + 4 \<and>
      writeNDEFToType2 T crd ndef = writePages T crd (tlvBuffer ndef) 0 0x04 \<and>
      (writeNDEFToType2 T crd ndef = (None, crd') \<longrightarrow>
         sent crd' = sent crd @
           map (\<lambda>k. [0xFF, 0xD6, 0x00, 0x04 + of_nat k, 0x04] @
                     slice (tlvBuffer ndef) (4 * k) (4 * k + 4))
             [0..<length (tlvBuffer ndef) div 4]) \<and>
      (writeNDEFToType2 T crd ndef = (Some err, crd') \<longrightarrow>
         (\<exists>n e. n < length (tlvBuffer ndef) div 4 \<and>
            err = WritePageFailed (0x04 + of_nat n) e \<and>
            sent crd' = sent crd @
              map (\<lambda>k. [0xFF, 0xD6, 0x00, 0x04 + of_nat k, 0x04] @
                        slice (tlvBuffer ndef) (4 * k) (4 * k + 4))
                [0..<Suc n])) \<and>
      ((\<forall>d apdu. \<exists>resp d'. T d apdu = (Inr (resp @ [0x90, 0x00]), d')) \<longrightarrow>
         (\<exists>crd''. writeNDEFToType2 T crd ndef = (None, crd''))))"
proof (intro conjI impI)
  assume "254 < length ndef"
  then show "writeNDEFToType2 T crd ndef = (Some (NDEFTooLarge (length ndef)), crd)"
    by (simp add: writeNDEFToType2_def)
next
  show "tlvBuffer ndef =
        [0x03, of_nat (length ndef)] @ ndef @ [0xFE] @
        replicate ((4 - (length ndef + 3) mod 4) mod 4) 0x00"
    by (rule tlvBuffer_eq)
next
  assume "length ndef \<le> 254"
  then show "unat (of_nat (length ndef) :: byte) = length ndef"
    by (simp add: unat_payloadLen)
next
  show "4 dvd length (tlvBuffer ndef)"
    by (rule tlvBuffer_aligned)
next
  show "length (tlvBuffer ndef) < length ndef + 3 + 4"
    by (rule tlvBuffer_bound)
next
  assume "length ndef \<le> 254"
  then show "writeNDEFToType2 T crd ndef = writePages T crd (tlvBuffer ndef) 0 0x04"
    by (simp add: writeNDEFToType2_def)
next
  assume "length ndef \<le> 254" and "writeNDEFToType2 T crd ndef = (None, crd')"
  then have "writePages T crd (tlvBuffer ndef) 0 0x04 = (None, crd')"
    by (simp add: writeNDEFToType2_def)
  from writePages_sent [OF this tlvBuffer_aligned]
  show "sent crd' = sent crd @
           map (\<lambda>k. [0xFF, 0xD6, 0x00, 0x04 + of_nat k, 0x04] @
                     slice (tlvBuffer ndef) (4 * k) (4 * k + 4))
             [0..<length (tlvBuffer ndef) div 4]"
    by simp
next
  assume "length ndef \<le> 254" and "writeNDEFToType2 T crd ndef = (Some err, crd')"
  then have "writePages T crd (tlvBuffer ndef) 0 0x04 = (Some err, crd')"
    by (simp add: writeNDEFToType2_def)
  from writePages_sent_fail [OF this tlvBuffer_aligned]
  show "\<exists>n e. n < length (tlvBuffer ndef) div 4 \<and>
            err = WritePageFailed (0x04 + of_nat n) e \<and>
            sent crd' = sent crd @
              map (\<lambda>k. [0xFF, 0xD6, 0x00, 0x04 + of_nat k, 0x04] @
                        slice (tlvBuffer ndef) (4 * k) (4 * k + 4))
                [0..<Suc n]"
    by simp
next
  assume le: "length ndef \<le> 254"
    and acc: "\<forall>d apdu. \<exists>resp d'. T d apdu = (Inr (resp @ [0x90, 0x00]), d')"
  from writePages_accepted [OF acc tlvBuffer_aligned, of 0 crd ndef "0x04"]
  obtain crd'' where "writePages T crd (tlvBuffer ndef) 0 0x04 = (None, crd'')"
    by auto
  with le show "\<exists>crd''. writeNDEFToType2 T crd ndef = (None, crd'')"
    by (simp add: writeNDEFToType2_def)
qed

theorem tlv_encoding_witness:
  "writeNDEFToType2 (\<lambda>d apdu. (Inr [0x90, 0x00], d)) \<lparr>device = (), sent = []\<rparr> (replicate 255 0x00) =
     (Some (NDEFTooLarge 255), \<lparr>device = (), sent = []\<rparr>) \<and>
   tlvBuffer [0xD1, 0x01, 0x02, 0x55, 0x04, 0x61] =
     [0x03, 0x06, 0xD1, 0x01, 0x02, 0x55, 0x04, 0x61, 0xFE, 0x00, 0x00, 0x00] \<and>
   writeNDEFToType2 (\<lambda>d apdu. (Inr [0x90, 0x00], d)) \<lparr>device = (), sent = []\<rparr>
       [0xD1, 0x01, 0x02, 0x55, 0x04, 0x61] =
     (None, \<lparr>device = (),
             sent = [[0xFF, 0xD6, 0x00, 0x04, 0x04, 0x03, 0x06, 0xD1, 0x01],
                     [0xFF, 0xD6, 0x00, 0x05, 0x04, 0x02, 0x55, 0x04, 0x61],
                     [0xFF, 0xD6, 0x00, 0x06, 0x04, 0xFE, 0x00, 0x00, 0x00]]\<rparr>) \<and>
   writeNDEFToType2
       (\<lambda>d apdu. (if d < (1 :: nat) then Inr [0x90, 0x00] else Inr [0x63, 0x00], d + 1))
       \<lparr>device = 0, sent = []\<rparr> [0xD1, 0x01, 0x02, 0x55, 0x04, 0x61] =
     (Some (WritePageFailed 0x05 (APDUFailed 0x63 0x00)),
      \<lparr>device = 2,
       sent = [[0xFF, 0xD6, 0x00, 0x04, 0x04, 0x03, 0x06, 0xD1, 0x01],
               [0xFF, 0xD6, 0x00, 0x05, 0x04, 0x02, 0x55, 0x04, 0x61]]\<rparr>)"
proof -
  let ?T = "\<lambda>(d :: unit) (apdu :: byte list). (Inr [0x90, 0x00 :: byte] :: error + byte list, d)"
  let ?c = "\<lparr>device = (), sent = []\<rparr> :: unit card"
  have "254 < length (replicate 255 (0x00 :: byte))"
    by (simp only: length_replicate)
  from tlv_encoding [THEN conjunct1, rule_format, OF this]
  have big: "writeNDEFToType2 ?T ?c (replicate 255 0x00) = (Some (NDEFTooLarge 255), ?c)"
    by (simp only: length_replicate)
  have r3: "replicate 3 (0x00 :: byte) = [0x00, 0x00, 0x00]"
    by code_simp
  have "length [0xD1, 0x01, 0x02, 0x55, 0x04, 0x61 :: byte] \<le> 254"
    by simp
  from tlv_encoding [THEN conjunct2, rule_format, OF this, THEN conjunct1]
  have buf: "tlvBuffer [0xD1, 0x01, 0x02, 0x55, 0x04, 0x61] =
     [0x03, 0x06, 0xD1, 0x01, 0x02, 0x55, 0x04, 0x61, 0xFE, 0x00, 0x00, 0x00]"
    by (simp add: r3)
  have wr: "writeNDEFToType2 ?T ?c [0xD1, 0x01, 0x02, 0x55, 0x04, 0x61] =
     (None, \<lparr>device = (),
             sent = [[0xFF, 0xD6, 0x00, 0x04, 0x04, 0x03, 0x06, 0xD1, 0x01],
                     [0xFF, 0xD6, 0x00, 0x05, 0x04, 0x02, 0x55, 0x04, 0x61],
                     [0xFF, 0xD6, 0x00, 0x06, 0x04, 0xFE, 0x00, 0x00, 0x00]]\<rparr>)"
    by code_simp
  have fl: "writeNDEFToType2
       (\<lambda>d apdu. (if d < (1 :: nat) then Inr [0x90, 0x00] else Inr [0x63, 0x00], d + 1))
       \<lparr>device = 0, sent = []\<rparr> [0xD1, 0x01, 0x02, 0x55, 0x04, 0x61] =
     (Some (WritePageFailed 0x05 (APDUFailed 0x63 0x00)),
      \<lparr>device = 2,
       sent = [[0xFF, 0xD6, 0x00, 0x04, 0x04, 0x03, 0x06, 0xD1, 0x01],
               [0xFF, 0xD6, 0x00, 0x05, 0x04, 0x02, 0x55, 0x04, 0x61]]\<rparr>)"
    by code_simp
  from big buf wr fl show ?thesis
    by (intro conjI)
qed

end
